theory Spec2Isabelle
  imports Main "HOL-Library.Extended_Nat"
begin

section \<open>The instance list (instanceList.h, instanceList.cxx)\<close>

text \<open>
  An \<open>Instance\<close> holds one field, \<open>_transform\<close>, a counted pointer to an
  immutable TransformState. The type variable \<open>'t\<close> is that pointer: two
  instances share a transform object exactly when their \<open>'t\<close> values are equal.
\<close>

datatype 't Instance = Instance (get_transform: 't)

text \<open>
  The class InstanceList has the single data member \<open>_instances\<close>, a vector;
  \<open>size()\<close> is the size of the vector.
\<close>

record 't InstanceList =
  instances :: "'t Instance list"

definition size_IL :: "'t InstanceList \<Rightarrow> nat" where
  "size_IL l = length (instances l)"

subsection \<open>BitArray\<close>

text \<open>
  Modelled from the spec: the class BitArray (bitArray.h) is used by
  \<open>InstanceList::without\<close> and is not part of the sources at hand. A BitArray is
  an infinite sequence of bits: finitely many stored bits, and one flag
  \<open>highest_bits\<close> that gives the value of every bit beyond the stored ones. The
  model stores single bits instead of machine words. Of the three queries that
  \<open>without\<close> calls, \<open>get_num_on_bits\<close> and \<open>get_lowest_off_bit\<close> return a C
  int, with \<open>-1\<close> for "infinitely many on bits" and for "no off bit"; counts and
  indices are taken to fit the int (see \<open>mask_ok\<close> below).
\<close>

record BitArray =
  array :: "bool list"
  highest_bits :: bool

definition get_bit :: "BitArray \<Rightarrow> nat \<Rightarrow> bool" where
  "get_bit m i = (if i < length (array m) then array m ! i else highest_bits m)"

definition get_num_on_bits :: "BitArray \<Rightarrow> int" where
  "get_num_on_bits m =
     (if highest_bits m then - 1 else int (length (filter (\<lambda>b. b) (array m))))"

definition get_lowest_off_bit :: "BitArray \<Rightarrow> int" where
  "get_lowest_off_bit m =
     (let k = length (takeWhile (\<lambda>b. b) (array m))
      in if k < length (array m) then int k
         else if \<not> highest_bits m then int (length (array m))
         else - 1)"

text \<open>The C cast \<open>(size_t)\<close> of an int, on a platform with 64-bit \<open>size_t\<close>.\<close>

definition size_t_of_int :: "int \<Rightarrow> nat" where
  "size_t_of_int i = nat (i mod 2 ^ 64)"

subsection \<open>The heap of instance lists\<close>

text \<open>
  \<open>without\<close> returns pointers (\<open>this\<close>, a function-local static, or a newly
  allocated list), so the lists live in a heap addressed by natural numbers.
  \<open>next_free\<close> is the allocator: every address below it is in use.
  \<open>empty_list\<close> is the function-local static of \<open>without\<close>, \<open>None\<close> while it is
  the null pointer. \<open>assert_failed\<close> records that an \<open>nassertr\<close> has fired; the
  macro reports the failure and makes the function return the given value.
\<close>

record 't heap =
  objects :: "nat \<Rightarrow> 't InstanceList"
  next_free :: nat
  empty_list :: "nat option"
  assert_failed :: bool

definition new_InstanceList :: "'t heap \<Rightarrow> nat \<times> 't heap" where
  "new_InstanceList h =
     (next_free h,
      h\<lparr>objects := (objects h)(next_free h := \<lparr>instances = []\<rparr>),
        next_free := Suc (next_free h)\<rparr>)"

definition nassertr :: "bool \<Rightarrow> 't heap \<Rightarrow> 't heap" where
  "nassertr condition h = (if condition then h else h\<lparr>assert_failed := True\<rparr>)"

text \<open>
  The copying loop of \<open>without\<close>:
  \<^verbatim>\<open>for (size_t i = ...; i < num_instances; ++i) {
    if (!mask.get_bit(i)) { new_list->_instances.push_back(_instances[i]); } }\<close>
  The index \<open>i\<close> stays below \<open>num_instances\<close>, the length of \<open>src\<close>.
\<close>

function without_loop ::
  "BitArray \<Rightarrow> 't Instance list \<Rightarrow> nat \<Rightarrow> nat \<Rightarrow> 't Instance list \<Rightarrow> 't Instance list" where
  "without_loop msk src i num_instances new_list =
     (if i < num_instances
      then without_loop msk src (Suc i) num_instances
             (if \<not> get_bit msk i then new_list @ [src ! i] else new_list)
      else new_list)"
  by pat_completeness auto
termination
  by (relation "measure (\<lambda>(msk, src, i, n, new_list). n - i)") auto

declare without_loop.simps [simp del]

text \<open>
  \<open>InstanceList::without\<close>. The call \<open>reserve\<close> only sets the capacity of the new
  vector and is not observable.
\<close>

definition without :: "'t heap \<Rightarrow> nat \<Rightarrow> BitArray \<Rightarrow> nat \<times> 't heap" where
  "without h this msk =
     (let num_instances = size_IL (objects h this);
          num_culled = size_t_of_int (get_num_on_bits msk)
      in if num_culled = 0 then (this, h)
         else if num_culled \<ge> num_instances then
           (case empty_list h of
              None \<Rightarrow>
                (let (p, h1) = new_InstanceList h
                 in (p, nassertr (num_culled \<le> num_instances) (h1\<lparr>empty_list := Some p\<rparr>)))
            | Some e \<Rightarrow> (e, nassertr (num_culled \<le> num_instances) h))
         else
           (let this_instances = instances (objects h this);
                (new_list, h1) = new_InstanceList h;
                kept = without_loop msk this_instances
                         (size_t_of_int (get_lowest_off_bit msk)) num_instances
                         (instances (objects h1 new_list))
            in (new_list, h1\<lparr>objects := (objects h1)(new_list := \<lparr>instances = kept\<rparr>)\<rparr>)))"

text \<open>
  \<open>InstanceList::xform\<close>: the body of the function is empty, so the object is
  returned as it was.
\<close>

definition xform :: "'m \<Rightarrow> 't InstanceList \<Rightarrow> 't InstanceList" where
  "xform mat this = this"

subsection \<open>Vocabulary for the statements about \<open>without\<close>\<close>

text \<open>
  The number of on bits of a mask, infinite when the bits beyond the stored ones
  are on.
\<close>

definition popcount :: "BitArray \<Rightarrow> enat" where
  "popcount m =
     (if highest_bits m then \<infinity> else enat (length (filter (\<lambda>b. b) (array m))))"

text \<open>The mask \<open>m\<close> with every bit at an index \<open>n\<close> or above cleared.\<close>

definition clear_from :: "nat \<Rightarrow> BitArray \<Rightarrow> BitArray" where
  "clear_from n m = \<lparr>array = map (get_bit m) [0..<n], highest_bits = False\<rparr>"

text \<open>
  The queries of a BitArray take and return C ints, so a mask stores fewer than
  \<open>2 ^ 31\<close> bits.
\<close>

definition mask_ok :: "BitArray \<Rightarrow> bool" where
  "mask_ok m = (length (array m) < 2 ^ 31)"

text \<open>
  The elements of \<open>xs\<close> whose index is not an on bit of \<open>m\<close>, in their
  original order.
\<close>

definition survivors :: "BitArray \<Rightarrow> 'a list \<Rightarrow> 'a list" where
  "survivors m xs = map ((!) xs) (filter (\<lambda>j. \<not> get_bit m j) [0..<length xs])"

text \<open>
  Once the static \<open>empty_list\<close> is set, it points to an allocated list that is
  empty. \<open>without\<close> only hands it out as a pointer to a constant list.
\<close>

definition static_ok :: "'t heap \<Rightarrow> bool" where
  "static_ok h =
     (case empty_list h of None \<Rightarrow> True
      | Some e \<Rightarrow> e < next_free h \<and> instances (objects h e) = [])"

text \<open>
  A heap for the examples: a list of three instances at address 0, a list of two
  at address 1, an empty list at address 2; the static is still null.
\<close>

definition heap_ex :: "nat heap" where
  "heap_ex =
     \<lparr>objects = (\<lambda>a. \<lparr>instances =
          (if a = 0 then [Instance 10, Instance 20, Instance 30]
           else if a = 1 then [Instance 10, Instance 20]
           else [])\<rparr>),
      next_free = 3, empty_list = None, assert_failed = False\<rparr>"

text \<open>A mask with the given stored bits and every further bit off.\<close>

definition mask_of :: "bool list \<Rightarrow> BitArray" where
  "mask_of bs = \<lparr>array = bs, highest_bits = False\<rparr>"

subsection \<open>Writing to and reading from a Bam stream\<close>

text \<open>
  Modelled from the spec: the classes Datagram, DatagramIterator, BamWriter and
  BamReader, and the base class CopyOnWriteObject, are not part of the sources at
  hand. The spec gives the serialized layout of an instance list as
  \<^verbatim>\<open>[uint16 count][count x pointer-token]\<close>, so a datagram is a sequence of
  fields of these two kinds. A pointer token stands for the object it refers to;
  the reader hands the objects of the tokens it has read to
  \<open>complete_pointers\<close>, in the order in which they were requested.
\<close>

datatype 'p field = UInt16 nat | PointerToken 'p

type_synonym 'p Datagram = "'p field list"

text \<open>
  A DatagramIterator is the part of the datagram that is still to be read. Reading
  a field of one kind where the datagram holds a field of the other kind, or
  nothing, does not give back what was written: the model makes it an error.
\<close>

type_synonym 'p DatagramIterator = "'p field list"

datatype error = Misparse | PointerListTooShort

definition get_uint16 :: "'p DatagramIterator \<Rightarrow> error + (nat \<times> 'p DatagramIterator)" where
  "get_uint16 scan =
     (case scan of UInt16 n # rest \<Rightarrow> Inr (n, rest) | _ \<Rightarrow> Inl Misparse)"

text \<open>\<open>BamWriter::write_pointer\<close> appends one pointer token for the object.\<close>

definition write_pointer :: "'p Datagram \<Rightarrow> 'p \<Rightarrow> 'p Datagram" where
  "write_pointer dg obj = dg @ [PointerToken obj]"

text \<open>
  The BamReader keeps the pointers requested for the object that is being read.
  \<open>BamReader::read_pointer\<close> reads one pointer token and requests its object.
\<close>

record 'p BamReader =
  requested :: "'p list"

definition read_pointer ::
  "'p DatagramIterator \<Rightarrow> 'p BamReader \<Rightarrow> error + ('p DatagramIterator \<times> 'p BamReader)" where
  "read_pointer scan manager =
     (case scan of
        PointerToken obj # rest \<Rightarrow> Inr (rest, manager\<lparr>requested := requested manager @ [obj]\<rparr>)
      | _ \<Rightarrow> Inl Misparse)"

text \<open>
  The methods of the base class write no field, read no field and request no
  pointer (\<open>complete_pointers\<close> of the base class returns 0).
\<close>

definition CopyOnWriteObject_write_datagram :: "'p Datagram \<Rightarrow> 'p Datagram" where
  "CopyOnWriteObject_write_datagram dg = dg"

definition CopyOnWriteObject_fillin :: "'p DatagramIterator \<Rightarrow> 'p DatagramIterator" where
  "CopyOnWriteObject_fillin scan = scan"

definition CopyOnWriteObject_complete_pointers :: "'w list \<Rightarrow> nat" where
  "CopyOnWriteObject_complete_pointers p_list = 0"

text \<open>
  \<open>InstanceList::write_datagram\<close>: after the call of the base class, the body is
  the single loop
  \<^verbatim>\<open>for (const Instance &instance : *(const InstanceList *)this) {
    manager->write_pointer(dg, instance.get_transform()); }\<close>
\<close>

fun write_datagram_loop :: "'t Instance list \<Rightarrow> 't Datagram \<Rightarrow> 't Datagram" where
  "write_datagram_loop [] dg = dg"
| "write_datagram_loop (instance # rest) dg =
     write_datagram_loop rest (write_pointer dg (get_transform instance))"

definition write_datagram :: "'t InstanceList \<Rightarrow> 't Datagram \<Rightarrow> 't Datagram" where
  "write_datagram this dg =
     write_datagram_loop (instances this) (CopyOnWriteObject_write_datagram dg)"

text \<open>
  \<open>InstanceList::fillin\<close>. \<open>resize\<close> fills the vector with default-constructed
  instances; the default constructor of \<open>Instance\<close> (instanceList.I, absent) takes
  the identity transform, here the parameter \<open>make_identity\<close>.
\<close>

function fillin_loop ::
  "nat \<Rightarrow> nat \<Rightarrow> 't DatagramIterator \<Rightarrow> 't BamReader
     \<Rightarrow> error + ('t DatagramIterator \<times> 't BamReader)" where
  "fillin_loop i num_instances scan manager =
     (if i < num_instances
      then (case read_pointer scan manager of
              Inl e \<Rightarrow> Inl e
            | Inr (scan', manager') \<Rightarrow> fillin_loop (Suc i) num_instances scan' manager')
      else Inr (scan, manager))"
  by pat_completeness auto
termination
  by (relation "measure (\<lambda>(i, n, scan, manager). n - i)") auto

declare fillin_loop.simps [simp del]

definition fillin ::
  "'t \<Rightarrow> 't InstanceList \<Rightarrow> 't DatagramIterator \<Rightarrow> 't BamReader
     \<Rightarrow> error + ('t InstanceList \<times> 't DatagramIterator \<times> 't BamReader)" where
  "fillin make_identity this scan manager =
     (case get_uint16 (CopyOnWriteObject_fillin scan) of
        Inl e \<Rightarrow> Inl e
      | Inr (num_instances, scan1) \<Rightarrow>
          (let this1 = this\<lparr>instances := replicate num_instances (Instance make_identity)\<rparr>
           in case fillin_loop 0 num_instances scan1 manager of
                Inl e \<Rightarrow> Inl e
              | Inr (scan2, manager2) \<Rightarrow> Inr (this1, scan2, manager2)))"

text \<open>
  \<open>InstanceList::complete_pointers\<close>:
  \<^verbatim>\<open>for (Instance &instance : *this) {
    instance = Instance(DCAST(TransformState, p_list[pi++])); }\<close>
  \<open>p_list\<close> is a C array; the model makes a read beyond its end an error. The cast
  \<open>DCAST\<close> from a pointer to a TypedWritable is the parameter \<open>dcast\<close>.
\<close>

fun complete_pointers_loop ::
  "('w \<Rightarrow> 't) \<Rightarrow> 'w list \<Rightarrow> 't Instance list \<Rightarrow> nat \<Rightarrow> error + ('t Instance list \<times> nat)" where
  "complete_pointers_loop dcast p_list [] p_i = Inr ([], p_i)"
| "complete_pointers_loop dcast p_list (instance # rest) p_i =
     (if p_i < length p_list
      then (case complete_pointers_loop dcast p_list rest (Suc p_i) of
              Inl e \<Rightarrow> Inl e
            | Inr (rest', p_i') \<Rightarrow> Inr (Instance (dcast (p_list ! p_i)) # rest', p_i'))
      else Inl PointerListTooShort)"

definition complete_pointers ::
  "('w \<Rightarrow> 't) \<Rightarrow> 't InstanceList \<Rightarrow> 'w list \<Rightarrow> error + ('t InstanceList \<times> nat)" where
  "complete_pointers dcast this p_list =
     (case complete_pointers_loop dcast p_list (instances this)
             (CopyOnWriteObject_complete_pointers p_list) of
        Inl e \<Rightarrow> Inl e
      | Inr (new_instances, p_i) \<Rightarrow> Inr (this\<lparr>instances := new_instances\<rparr>, p_i))"

text \<open>
  The serialized layout that the spec gives for an instance list, and the spec's
  \<open>transform_all\<close> (new transform = matrix composed with the old one), for the
  comparison with \<open>write_datagram\<close> and \<open>xform\<close>.
\<close>

definition layout_spec :: "'t InstanceList \<Rightarrow> 't Datagram" where
  "layout_spec this =
     UInt16 (size_IL this) # map (\<lambda>instance. PointerToken (get_transform instance)) (instances this)"

definition transform_all_spec ::
  "('m \<Rightarrow> 't \<Rightarrow> 't) \<Rightarrow> 'm \<Rightarrow> 't InstanceList \<Rightarrow> 't InstanceList" where
  "transform_all_spec compose_mat mat this =
     this\<lparr>instances :=
       map (\<lambda>instance. Instance (compose_mat mat (get_transform instance))) (instances this)\<rparr>"

section \<open>The instanced node (instancedNode.cxx)\<close>

text \<open>
  Modelled from the spec: the header of the class (instancedNode.h, instancedNode.I)
  and the base class PandaNode are not part of the sources at hand. A node has
  its type handle (\<open>get_type()\<close>), its own transform, its children, and the
  pipeline cycler of an InstancedNode: one \<open>CData\<close> per pipeline stage, whose
  only member \<open>_instances\<close> is a copy-on-write pointer to an instance list. For a
  node of another class the cycler is never read. A thread is represented by its
  pipeline stage.
\<close>

datatype TypeHandle = PandaNode_handle | InstancedNode_handle | Other_handle nat

record CData =
  instances_ptr :: nat

record 't PandaNode =
  node_type :: TypeHandle
  node_transform :: 't
  children :: "nat list"
  cycler :: "nat \<Rightarrow> CData"

text \<open>\<open>InstancedNode::get_class_type()\<close> returns the static handle of the class.\<close>

definition get_class_type :: TypeHandle where
  "get_class_type = InstancedNode_handle"

definition is_exact_type :: "'t PandaNode \<Rightarrow> TypeHandle \<Rightarrow> bool" where
  "is_exact_type node handle = (node_type node = handle)"

text \<open>
  Reading the cycler through a \<open>CDReader\<close> for the current thread and taking the
  read pointer of \<open>_instances\<close>; \<open>get_instances\<close> does the same.
\<close>

definition get_read_pointer :: "CData \<Rightarrow> nat" where
  "get_read_pointer cdata = instances_ptr cdata"

definition get_instances :: "'t PandaNode \<Rightarrow> nat \<Rightarrow> nat" where
  "get_instances node current_thread = get_read_pointer (cycler node current_thread)"

text \<open>
  \<open>InstancedNode::combine_with\<close>. The nodes live in a store addressed by natural
  numbers; the result is the pointer \<open>this\<close>, or \<open>None\<close> for the null pointer.
\<close>

definition combine_with :: "(nat \<Rightarrow> 't PandaNode) \<Rightarrow> nat \<Rightarrow> nat \<Rightarrow> nat \<Rightarrow> nat option" where
  "combine_with nodes current_thread this other =
     (if is_exact_type (nodes this) get_class_type \<and> is_exact_type (nodes other) get_class_type
      then
        (let this_cdata = cycler (nodes this) current_thread;
             other_cdata = cycler (nodes other) current_thread;
             this_instances = get_read_pointer this_cdata;
             other_instances = get_read_pointer other_cdata
         in if this_instances = other_instances then Some this else None)
      else None)"

subsection \<open>The cull callback\<close>

text \<open>
  Modelled from the spec: CullTraverserData and CullTraverser are not part of the
  sources at hand. Of the traversal data, the callback itself writes the view
  frustum (a pointer) and the cull planes; the rest of the data is \<open>net\<close>.
  \<open>apply_transform\<close>, which composes a transform into the data, and
  \<open>CullPlanes::make_empty()\<close> are parameters. A traverser keeps its current
  thread; \<open>traverse_below\<close> is recorded as a call with its argument, and has an
  arbitrary effect on the rest of the traverser.
\<close>

record ('f, 'c, 'n) CullTraverserData =
  view_frustum :: "'f option"
  cull_planes :: 'c
  net :: 'n

record ('d, 's) CullTraverser =
  get_current_thread :: nat
  below_calls :: "'d list"
  trav_state :: 's

definition traverse_below ::
  "('d \<Rightarrow> 's \<Rightarrow> 's) \<Rightarrow> 'd \<Rightarrow> ('d, 's) CullTraverser \<Rightarrow> ('d, 's) CullTraverser" where
  "traverse_below effect data trav =
     trav\<lparr>below_calls := below_calls trav @ [data],
          trav_state := effect data (trav_state trav)\<rparr>"

text \<open>
  The loop of \<open>cull_callback\<close>:
  \<^verbatim>\<open>for (const InstanceList::Instance &instance : *instances) {
    CullTraverserData instance_data(data);
    instance_data.apply_transform(instance.get_transform());
    trav->traverse_below(instance_data); }\<close>
  The list is read through a counted pointer to a constant list, so the
  traversal below cannot change it.
\<close>

fun cull_callback_loop ::
  "(('f, 'c, 'n) CullTraverserData \<Rightarrow> 't \<Rightarrow> ('f, 'c, 'n) CullTraverserData)
     \<Rightarrow> (('f, 'c, 'n) CullTraverserData \<Rightarrow> 's \<Rightarrow> 's)
     \<Rightarrow> 't Instance list \<Rightarrow> ('f, 'c, 'n) CullTraverserData
     \<Rightarrow> (('f, 'c, 'n) CullTraverserData, 's) CullTraverser
     \<Rightarrow> (('f, 'c, 'n) CullTraverserData, 's) CullTraverser" where
  "cull_callback_loop apply_transform effect [] data trav = trav"
| "cull_callback_loop apply_transform effect (instance # rest) data trav =
     (let instance_data = data;
          instance_data1 = apply_transform instance_data (get_transform instance)
      in cull_callback_loop apply_transform effect rest data
           (traverse_below effect instance_data1 trav))"

definition cull_callback ::
  "(('f, 'c, 'n) CullTraverserData \<Rightarrow> 't \<Rightarrow> ('f, 'c, 'n) CullTraverserData)
     \<Rightarrow> 'c
     \<Rightarrow> (('f, 'c, 'n) CullTraverserData \<Rightarrow> 's \<Rightarrow> 's)
     \<Rightarrow> 't heap \<Rightarrow> 't PandaNode
     \<Rightarrow> (('f, 'c, 'n) CullTraverserData, 's) CullTraverser
     \<Rightarrow> ('f, 'c, 'n) CullTraverserData
     \<Rightarrow> bool \<times> ('f, 'c, 'n) CullTraverserData \<times> (('f, 'c, 'n) CullTraverserData, 's) CullTraverser" where
  "cull_callback apply_transform make_empty effect h this trav data =
     (let current_thread = get_current_thread trav;
          data1 = data\<lparr>view_frustum := None, cull_planes := make_empty\<rparr>;
          instances_p = get_instances this current_thread;
          trav1 = cull_callback_loop apply_transform effect
                    (instances (objects h instances_p)) data1 trav
      in (False, data1, trav1))"

subsection \<open>Tight bounds\<close>

text \<open>
  \<open>calc_tight_bounds\<close> updates \<open>min_point\<close>, \<open>max_point\<close> and \<open>found_any\<close> through
  the virtual \<open>calc_tight_bounds\<close> of the children, which belongs to other
  classes: a call on a child is recorded with the child and the transform it is
  given, and has an arbitrary effect on the three values, here \<open>points\<close>.
  \<open>TransformState::compose\<close> is the parameter \<open>compose\<close>.
\<close>

record ('t, 'b) tight_bounds =
  points :: 'b
  child_calls :: "(nat \<times> 't) list"

definition child_calc_tight_bounds ::
  "(nat \<Rightarrow> 't \<Rightarrow> 'b \<Rightarrow> 'b) \<Rightarrow> nat \<Rightarrow> 't \<Rightarrow> ('t, 'b) tight_bounds \<Rightarrow> ('t, 'b) tight_bounds" where
  "child_calc_tight_bounds effect child transform acc =
     acc\<lparr>points := effect child transform (points acc),
         child_calls := child_calls acc @ [(child, transform)]\<rparr>"

function calc_tight_bounds_children ::
  "(nat \<Rightarrow> 't \<Rightarrow> 'b \<Rightarrow> 'b) \<Rightarrow> nat list \<Rightarrow> nat \<Rightarrow> nat \<Rightarrow> 't
     \<Rightarrow> ('t, 'b) tight_bounds \<Rightarrow> ('t, 'b) tight_bounds" where
  "calc_tight_bounds_children effect cr ci num_children instance_transform acc =
     (if ci < num_children
      then calc_tight_bounds_children effect cr (Suc ci) num_children instance_transform
             (child_calc_tight_bounds effect (cr ! ci) instance_transform acc)
      else acc)"
  by pat_completeness auto
termination
  by (relation "measure (\<lambda>(effect, cr, ci, n, t, acc). n - ci)") auto

declare calc_tight_bounds_children.simps [simp del]

function calc_tight_bounds_instances ::
  "('t \<Rightarrow> 't \<Rightarrow> 't) \<Rightarrow> (nat \<Rightarrow> 't \<Rightarrow> 'b \<Rightarrow> 'b) \<Rightarrow> 't PandaNode \<Rightarrow> 't Instance list
     \<Rightarrow> nat \<Rightarrow> 't \<Rightarrow> ('t, 'b) tight_bounds \<Rightarrow> ('t, 'b) tight_bounds" where
  "calc_tight_bounds_instances compose effect this instances_v ii next_transform acc =
     (if ii < length instances_v
      then (let instance_transform = compose next_transform (get_transform (instances_v ! ii));
                cr = children this;
                num_children = length cr
            in calc_tight_bounds_instances compose effect this instances_v (Suc ii) next_transform
                 (calc_tight_bounds_children effect cr 0 num_children instance_transform acc))
      else acc)"
  by pat_completeness auto
termination
  by (relation "measure (\<lambda>(compose, effect, this, xs, ii, t, acc). length xs - ii)") auto

declare calc_tight_bounds_instances.simps [simp del]

definition calc_tight_bounds ::
  "('t \<Rightarrow> 't \<Rightarrow> 't) \<Rightarrow> (nat \<Rightarrow> 't \<Rightarrow> 'b \<Rightarrow> 'b) \<Rightarrow> 't heap \<Rightarrow> 't PandaNode
     \<Rightarrow> ('t, 'b) tight_bounds \<Rightarrow> 't \<Rightarrow> nat \<Rightarrow> 't \<times> ('t, 'b) tight_bounds" where
  "calc_tight_bounds compose effect h this acc transform current_thread =
     (let instances_p = get_instances this current_thread;
          next_transform = compose transform (node_transform this)
      in (next_transform,
          calc_tight_bounds_instances compose effect this (instances (objects h instances_p))
            0 next_transform acc))"

subsection \<open>Internal bounds\<close>

text \<open>
  Modelled from the spec: the bounding volumes (boundingVolume.h,
  omniBoundingVolume.h) are not part of the sources at hand. An
  OmniBoundingVolume is the infinite volume; any other volume is represented by
  the set of points it contains, given as a test. The volumes live in a heap of
  their own, with \<open>bv_next\<close> as the allocator.
\<close>

datatype 'p BoundingVolume = OmniBoundingVolume | OtherBoundingVolume "'p \<Rightarrow> bool"

fun contains_point :: "'p BoundingVolume \<Rightarrow> 'p \<Rightarrow> bool" where
  "contains_point OmniBoundingVolume p = True"
| "contains_point (OtherBoundingVolume inside) p = inside p"

record 'p bv_heap =
  volumes :: "nat \<Rightarrow> 'p BoundingVolume"
  bv_next :: nat

text \<open>
  \<open>InstancedNode::compute_internal_bounds\<close>: the body is the single assignment
  \<^verbatim>\<open>internal_bounds = new OmniBoundingVolume;\<close> The reference parameter
  \<open>internal_vertices\<close> is left as it was.
\<close>

definition compute_internal_bounds ::
  "'p bv_heap \<Rightarrow> 't PandaNode \<Rightarrow> nat option \<Rightarrow> int \<Rightarrow> nat \<Rightarrow> nat
     \<Rightarrow> nat option \<times> int \<times> 'p bv_heap" where
  "compute_internal_bounds bh this internal_bounds internal_vertices pipeline_stage current_thread =
     (Some (bv_next bh), internal_vertices,
      bh\<lparr>volumes := (volumes bh)(bv_next bh := OmniBoundingVolume),
         bv_next := Suc (bv_next bh)\<rparr>)"

subsection \<open>Nodes for the examples\<close>

text \<open>
  Four nodes with the transform 2 and two children. The nodes 0, 1 and 2 are
  instanced nodes, the node 3 is a plain PandaNode; the nodes 0 and 1 share the
  instance list at address 0, the node 2 has the list at address 1. In
  \<open>heap_twins\<close> every address holds a list with the same two instances.
\<close>

definition nodes_ex :: "nat \<Rightarrow> nat PandaNode" where
  "nodes_ex a =
     \<lparr>node_type = (if a = 3 then PandaNode_handle else InstancedNode_handle),
      node_transform = 2,
      children = [7, 8],
      cycler = (\<lambda>stage. \<lparr>instances_ptr = (if a = 2 then 1 else 0)\<rparr>)\<rparr>"

definition heap_twins :: "nat heap" where
  "heap_twins =
     \<lparr>objects = (\<lambda>a. \<lparr>instances = [Instance 10, Instance 20]\<rparr>),
      next_free = 2, empty_list = None, assert_failed = False\<rparr>"

section \<open>Properties of the instance list\<close>

subsection \<open>The copying loop and the bit queries\<close>

lemma without_loop_eq:
  "without_loop msk src i n acc = acc @ map ((!) src) (filter (\<lambda>j. \<not> get_bit msk j) [i..<n])"
proof (induction msk src i n acc rule: without_loop.induct)
  case (1 msk src i n acc)
  show ?case
  proof (cases "i < n")
    case True
    then have "[i..<n] = i # [Suc i..<n]" by (simp add: upt_conv_Cons)
    with True "1" show ?thesis by (subst without_loop.simps) simp
  next
    case False
    then show ?thesis by (subst without_loop.simps) simp
  qed
qed

lemma takeWhile_all_on:
  "j < length (takeWhile (\<lambda>b. b) bs) \<Longrightarrow> bs ! j"
  by (metis set_takeWhileD nth_mem takeWhile_nth)

lemma below_lowest_off_bit:
  assumes "0 \<le> get_lowest_off_bit msk" "j < nat (get_lowest_off_bit msk)"
  shows "get_bit msk j"
  using assms takeWhile_all_on[of j "array msk"] length_takeWhile_le[of "\<lambda>b. b" "array msk"]
  by (auto simp: get_lowest_off_bit_def get_bit_def Let_def split: if_splits)

lemma filter_skip_prefix:
  assumes "\<forall>j<lo. \<not> P j"
  shows "filter P [lo..<n] = filter P [0..<n]"
proof (cases "lo \<le> n")
  case True
  then have "[0..<n] = [0..<lo] @ [lo..<n]" by (metis upt_add_eq_append le_add_diff_inverse zero_le)
  moreover have "filter P [0..<lo] = []" using assms by (simp add: filter_empty_conv)
  ultimately show ?thesis by simp
next
  case False
  then have "filter P [0..<n] = []" using assms by (simp add: filter_empty_conv)
  with False show ?thesis by simp
qed

lemma count_on_conv:
  "length (filter (\<lambda>b. b) bs) = length (filter (\<lambda>i. bs ! i) [0..<length bs])"
proof -
  have "filter (\<lambda>b. b) (map ((!) bs) [0..<length bs]) = map ((!) bs) (filter (\<lambda>i. bs ! i) [0..<length bs])"
    by (simp add: filter_map comp_def)
  then show ?thesis by (metis length_map map_nth)
qed

lemma size_t_of_count:
  "n < 2 ^ 64 \<Longrightarrow> size_t_of_int (int n) = n"
  unfolding size_t_of_int_def
  by (metis nat_int of_nat_mod of_nat_numeral of_nat_power mod_less)

lemma size_t_of_minus_one: "size_t_of_int (- 1) = 2 ^ 64 - 1"
  unfolding size_t_of_int_def by simp

lemma inrange_count_le:
  assumes "\<not> highest_bits m"
  shows "length (filter (get_bit m) [0..<n]) \<le> length (filter (\<lambda>b. b) (array m))"
proof -
  let ?len = "length (array m)"
  have c: "length (filter (\<lambda>b. b) (array m)) = length (filter (get_bit m) [0..<?len])"
    unfolding count_on_conv[of "array m"]
    by (rule arg_cong[where f=length], rule filter_cong) (auto simp: get_bit_def)
  show ?thesis
  proof (cases "n \<le> ?len")
    case True
    then have "[0..<?len] = [0..<n] @ [n..<?len]"
      by (metis upt_add_eq_append le_add_diff_inverse zero_le)
    then show ?thesis unfolding c by simp
  next
    case False
    then have "[0..<n] = [0..<?len] @ [?len..<n]"
      by (metis upt_add_eq_append le_add_diff_inverse zero_le nat_le_linear)
    moreover have "filter (get_bit m) [?len..<n] = []"
      using assms by (simp add: filter_empty_conv get_bit_def)
    ultimately show ?thesis unfolding c by simp
  qed
qed

lemma count_eq_inrange:
  assumes "\<forall>i\<ge>n. \<not> get_bit m i"
  shows "\<not> highest_bits m \<and> length (filter (\<lambda>b. b) (array m)) = length (filter (get_bit m) [0..<n])"
proof -
  let ?len = "length (array m)"
  have nh: "\<not> highest_bits m"
    using assms[rule_format, of "max n ?len"] by (simp add: get_bit_def)
  have c: "length (filter (\<lambda>b. b) (array m)) = length (filter (get_bit m) [0..<?len])"
    unfolding count_on_conv[of "array m"]
    by (rule arg_cong[where f=length], rule filter_cong) (auto simp: get_bit_def)
  have "length (filter (get_bit m) [0..<?len]) = length (filter (get_bit m) [0..<n])"
  proof (cases "n \<le> ?len")
    case True
    then have "[0..<?len] = [0..<n] @ [n..<?len]"
      by (metis upt_add_eq_append le_add_diff_inverse zero_le)
    moreover have "filter (get_bit m) [n..<?len] = []"
      using assms by (simp add: filter_empty_conv)
    ultimately show ?thesis by simp
  next
    case False
    then have "[0..<n] = [0..<?len] @ [?len..<n]"
      by (metis upt_add_eq_append le_add_diff_inverse zero_le nat_le_linear)
    moreover have "filter (get_bit m) [?len..<n] = []"
      using nh by (simp add: filter_empty_conv get_bit_def)
    ultimately show ?thesis by simp
  qed
  with c nh show ?thesis by simp
qed

lemma no_on_bits:
  assumes "\<not> highest_bits m" "length (filter (\<lambda>b. b) (array m)) = 0"
  shows "\<not> get_bit m j"
proof (cases "j < length (array m)")
  case True
  from assms(2) have "filter (\<lambda>b. b) (array m) = []" by simp
  then have "\<forall>b\<in>set (array m). \<not> b" unfolding filter_empty_conv .
  with True have "\<not> array m ! j" using nth_mem by blast
  with True show ?thesis by (simp add: get_bit_def)
next
  case False
  with assms(1) show ?thesis by (simp add: get_bit_def)
qed

lemma survivors_all:
  assumes "\<forall>j<length xs. \<not> get_bit m j"
  shows "survivors m xs = xs"
proof -
  have "filter (\<lambda>j. \<not> get_bit m j) [0..<length xs] = [0..<length xs]"
    using assms by (simp add: filter_id_conv)
  then show ?thesis by (simp add: survivors_def map_nth)
qed

lemma length_survivors:
  "length (survivors m xs) = length xs - length (filter (get_bit m) [0..<length xs])"
  using sum_length_filter_compl[of "get_bit m" "[0..<length xs]"]
  by (simp add: survivors_def)

lemma get_bit_clear_from: "get_bit (clear_from n m) j = (j < n \<and> get_bit m j)"
  by (simp add: clear_from_def get_bit_def)

lemma count_clear_from:
  "length (filter (\<lambda>b. b) (array (clear_from n m))) = length (filter (get_bit m) [0..<n])"
  by (simp add: clear_from_def filter_map comp_def)

lemma survivors_clear_from:
  "survivors (clear_from (length xs) m) xs = survivors m xs"
  unfolding survivors_def
  by (rule arg_cong[where f="map ((!) xs)"], rule filter_cong) (auto simp: get_bit_clear_from)

subsection \<open>The three branches of \<open>without\<close>\<close>

lemma num_culled_finite:
  assumes "\<not> highest_bits m" "length (array m) < 2 ^ 64"
  shows "size_t_of_int (get_num_on_bits m) = length (filter (\<lambda>b. b) (array m))"
proof -
  have "length (filter (\<lambda>b. b) (array m)) \<le> length (array m)" by simp
  from this assms(2) have "length (filter (\<lambda>b. b) (array m)) < 2 ^ 64" by (rule order.strict_trans1)
  then show ?thesis using assms(1) by (simp add: get_num_on_bits_def size_t_of_count)
qed

lemma num_culled_infinite:
  assumes "highest_bits m"
  shows "size_t_of_int (get_num_on_bits m) = 2 ^ 64 - 1"
  using assms by (simp add: get_num_on_bits_def size_t_of_minus_one)

lemma lowest_off_bit_finite:
  assumes "\<not> highest_bits m" "length (array m) < 2 ^ 64"
  shows "0 \<le> get_lowest_off_bit m \<and> size_t_of_int (get_lowest_off_bit m) = nat (get_lowest_off_bit m)"
proof -
  let ?k = "length (takeWhile (\<lambda>b. b) (array m))"
  have "?k \<le> length (array m)" by (rule length_takeWhile_le)
  from this assms(2) have k: "?k < 2 ^ 64" by (rule order.strict_trans1)
  show ?thesis
    using assms k by (simp add: get_lowest_off_bit_def Let_def size_t_of_count)
qed

lemma without_copy_loop:
  assumes "\<not> highest_bits m" "length (array m) < 2 ^ 64"
  shows "without_loop m xs (size_t_of_int (get_lowest_off_bit m)) (length xs) [] = survivors m xs"
proof -
  from lowest_off_bit_finite[OF assms]
  have nn: "0 \<le> get_lowest_off_bit m"
    and c: "size_t_of_int (get_lowest_off_bit m) = nat (get_lowest_off_bit m)" by simp_all
  have "\<forall>j<nat (get_lowest_off_bit m). \<not> \<not> get_bit m j"
    using below_lowest_off_bit[OF nn] by simp
  then have "filter (\<lambda>j. \<not> get_bit m j) [nat (get_lowest_off_bit m)..<length xs]
             = filter (\<lambda>j. \<not> get_bit m j) [0..<length xs]"
    by (rule filter_skip_prefix)
  then show ?thesis by (simp add: without_loop_eq c survivors_def)
qed

lemma without_zero:
  assumes "size_t_of_int (get_num_on_bits m) = 0"
  shows "without h this m = (this, h)"
  using assms by (simp add: without_def)

lemma without_partial_eq:
  assumes "\<not> highest_bits m" "length (array m) < 2 ^ 64"
    and "0 < length (filter (\<lambda>b. b) (array m))"
    and "length (filter (\<lambda>b. b) (array m)) < length (instances (objects h this))"
  shows "without h this m =
           (next_free h,
            h\<lparr>objects := (objects h)(next_free h :=
                 \<lparr>instances = survivors m (instances (objects h this))\<rparr>),
              next_free := Suc (next_free h)\<rparr>)"
  using assms
  by (simp add: without_def num_culled_finite size_IL_def new_InstanceList_def
      without_copy_loop Let_def)

lemma without_all_eq:
  assumes "0 < size_t_of_int (get_num_on_bits m)"
    and "length (instances (objects h this)) \<le> size_t_of_int (get_num_on_bits m)"
  shows "without h this m =
    (case empty_list h of
       None \<Rightarrow> (next_free h,
                nassertr (size_t_of_int (get_num_on_bits m) \<le> length (instances (objects h this)))
                  (h\<lparr>objects := (objects h)(next_free h := \<lparr>instances = []\<rparr>),
                     next_free := Suc (next_free h), empty_list := Some (next_free h)\<rparr>))
     | Some e \<Rightarrow> (e, nassertr (size_t_of_int (get_num_on_bits m) \<le> length (instances (objects h this))) h))"
  using assms
  by (simp add: without_def size_IL_def new_InstanceList_def split: option.splits)

subsection \<open>Filtering by a mask\<close>

lemmas ex_defs = heap_ex_def mask_of_def without_def size_IL_def get_num_on_bits_def
  size_t_of_int_def new_InstanceList_def nassertr_def popcount_def

text \<open>\<open>survivors\<close> is the library's selection of a list by a set of indices.\<close>

lemma survivors_nths: "survivors m xs = nths xs {j. \<not> get_bit m j}"
proof (induction xs rule: rev_induct)
  case Nil
  show ?case by (simp add: survivors_def)
next
  case (snoc x xs)
  have "map ((!) (xs @ [x])) (filter (\<lambda>j. \<not> get_bit m j) [0..<length xs])
        = map ((!) xs) (filter (\<lambda>j. \<not> get_bit m j) [0..<length xs])"
    by (rule map_cong) (auto simp: nth_append)
  with snoc show ?case
    by (simp add: survivors_def nths_append)
qed

text \<open>
  Claim C5 as stated includes the case of an empty list and a mask with no on
  bit. There the first test of \<open>without\<close>, \<open>num_culled == 0\<close>, returns the
  receiver: the list at address 2, while the static \<open>empty_list\<close> stays null. A
  later call with a mask that covers a whole list returns the static, a different
  object, at address 3.
\<close>

theorem without_canonical_counterexample:
  "enat (size_IL (objects heap_ex 2)) \<le> popcount (mask_of [])
   \<and> enat (size_IL (objects heap_ex 1)) \<le> popcount (mask_of [True, True])
   \<and> fst (without heap_ex 2 (mask_of [])) = 2
   \<and> empty_list (snd (without heap_ex 2 (mask_of []))) = None
   \<and> fst (without (snd (without heap_ex 2 (mask_of []))) 1 (mask_of [True, True])) = 3"
  by (simp add: ex_defs zero_enat_def)

lemma ex_partial:
  "without heap_ex 0 (mask_of [True, False, False, False, False, False, False, True])
   = (3, heap_ex\<lparr>objects := (objects heap_ex)(3 := \<lparr>instances = [Instance 20, Instance 30]\<rparr>),
                  next_free := 4\<rparr>)"
  using without_partial_eq [of "mask_of [True, False, False, False, False, False, False, True]" heap_ex 0]
  by (simp add: heap_ex_def mask_of_def survivors_def get_bit_def)

text \<open>
  Claim C6 as stated gives the size of the result as the size of the list minus
  the number of on bits of the mask. A mask with the bits 0 and 7 on has two on
  bits; on a list of three instances the result has two instances, not one: the
  bit 7 names no instance.
\<close>

theorem without_size_counterexample:
  "popcount (mask_of [True, False, False, False, False, False, False, True]) = 2
   \<and> size_IL (objects heap_ex 0) = 3
   \<and> size_IL (objects (snd (without heap_ex 0 (mask_of [True, False, False, False, False, False, False, True])))
         (fst (without heap_ex 0 (mask_of [True, False, False, False, False, False, False, True])))) = 2"
  unfolding ex_partial
  by (simp add: heap_ex_def mask_of_def popcount_def size_IL_def numeral_eq_enat)

lemma popcount_finite:
  assumes "popcount m < enat n"
  shows "\<not> highest_bits m \<and> length (filter (\<lambda>b. b) (array m)) < n"
  using assms by (simp add: popcount_def split: if_splits)

lemma mask_ok_bound: "mask_ok m \<Longrightarrow> length (array m) < 2 ^ 64"
proof -
  assume "mask_ok m"
  then have "length (array m) < 2 ^ 31" by (simp add: mask_ok_def)
  moreover have "(2::nat) ^ 31 < 2 ^ 64" by simp
  ultimately show ?thesis by (rule less_trans)
qed

lemma without_below_size:
  assumes "\<not> highest_bits m" "length (array m) < 2 ^ 64"
    and "length (filter (\<lambda>b. b) (array m)) < length (instances (objects h this))"
  shows "instances (objects (snd (without h this m)) (fst (without h this m)))
           = survivors m (instances (objects h this))
         \<and> assert_failed (snd (without h this m)) = assert_failed h"
proof (cases "length (filter (\<lambda>b. b) (array m)) = 0")
  case True
  then have "size_t_of_int (get_num_on_bits m) = 0"
    using assms(1,2) by (simp add: num_culled_finite)
  then have w: "without h this m = (this, h)" by (rule without_zero)
  have "\<forall>j<length (instances (objects h this)). \<not> get_bit m j"
    using no_on_bits[OF assms(1) True] by simp
  then have "survivors m (instances (objects h this)) = instances (objects h this)"
    by (rule survivors_all)
  with w show ?thesis by simp
next
  case False
  then have "0 < length (filter (\<lambda>b. b) (array m))" by simp
  from without_partial_eq[OF assms(1,2) this assms(3)]
  show ?thesis by simp
qed

text \<open>
  Claim C6, amended: for every list \<open>L\<close> and every mask \<open>M\<close> with
  \<open>0 < popcount(M) < size(L)\<close>, \<open>without(M)\<close> returns a newly allocated list
  that holds exactly the instances of \<open>L\<close> whose index is not an on bit of \<open>M\<close>,
  in their original order. Its size is \<open>size(L)\<close> minus the number of on bits of
  \<open>M\<close> below \<open>size(L)\<close>, which is \<open>size(L) - popcount(M)\<close> when \<open>M\<close> has no on
  bit at an index \<open>size(L)\<close> or above.
\<close>

theorem without_partial:
  assumes "0 < popcount m"
    and "popcount m < enat (size_IL (objects h this))"
    and "mask_ok m"
  shows "fst (without h this m) = next_free h
    \<and> instances (objects (snd (without h this m)) (fst (without h this m)))
        = survivors m (instances (objects h this))
    \<and> size_IL (objects (snd (without h this m)) (fst (without h this m)))
        = size_IL (objects h this)
          - length (filter (get_bit m) [0..<size_IL (objects h this)])
    \<and> ((\<forall>i\<ge>size_IL (objects h this). \<not> get_bit m i) \<longrightarrow>
         enat (size_IL (objects (snd (without h this m)) (fst (without h this m)))) + popcount m
           = enat (size_IL (objects h this)))"
proof -
  let ?xs = "instances (objects h this)"
  let ?c = "length (filter (\<lambda>b. b) (array m))"
  from popcount_finite[OF assms(2)]
  have fin: "\<not> highest_bits m" and lt: "?c < length ?xs" by (simp_all add: size_IL_def)
  from assms(1) fin have pos: "0 < ?c" by (simp add: popcount_def zero_enat_def)
  have len: "length (array m) < 2 ^ 64" using assms(3) by (rule mask_ok_bound)
  note eq = without_partial_eq[OF fin len pos lt]
  have size: "length (survivors m ?xs) = length ?xs - length (filter (get_bit m) [0..<length ?xs])"
    by (rule length_survivors)
  have le: "length (filter (get_bit m) [0..<length ?xs]) \<le> length ?xs"
    using length_filter_le[of "get_bit m" "[0..<length ?xs]"] by simp
  have inr: "(\<forall>i\<ge>length ?xs. \<not> get_bit m i) \<longrightarrow>
        enat (length (survivors m ?xs)) + popcount m = enat (length ?xs)"
  proof
    assume "\<forall>i\<ge>length ?xs. \<not> get_bit m i"
    from count_eq_inrange[OF this] have "?c = length (filter (get_bit m) [0..<length ?xs])" by simp
    with size le fin show "enat (length (survivors m ?xs)) + popcount m = enat (length ?xs)"
      by (simp add: popcount_def)
  qed
  show ?thesis
    unfolding eq using size inr by (simp add: size_IL_def)
qed

text \<open>The theorem at the list of three instances and the mask with bits 0 and 2 on.\<close>

theorem without_partial_witness:
  "0 < popcount (mask_of [True, False, True])
   \<and> popcount (mask_of [True, False, True]) < enat (size_IL (objects heap_ex 0))
   \<and> mask_ok (mask_of [True, False, True])
   \<and> fst (without heap_ex 0 (mask_of [True, False, True])) = 3
   \<and> instances (objects (snd (without heap_ex 0 (mask_of [True, False, True])))
        (fst (without heap_ex 0 (mask_of [True, False, True]))))
      = [Instance 20]"
proof -
  let ?m = "mask_of [True, False, True]"
  have a: "0 < popcount ?m" by (simp add: popcount_def mask_of_def zero_enat_def)
  have b: "popcount ?m < enat (size_IL (objects heap_ex 0))"
    by (simp add: popcount_def mask_of_def heap_ex_def size_IL_def)
  have c: "mask_ok ?m" by (simp add: mask_ok_def mask_of_def)
  note w = without_partial [OF a b c]
  from w have d: "fst (without heap_ex 0 ?m) = next_free heap_ex"
    by (rule conjunct1)
  from w have e: "instances (objects (snd (without heap_ex 0 ?m)) (fst (without heap_ex 0 ?m)))
              = survivors ?m (instances (objects heap_ex 0))"
    by blast
  have f: "survivors ?m (instances (objects heap_ex 0)) = [Instance 20]"
    by (simp add: survivors_def heap_ex_def mask_of_def get_bit_def)
  have g: "next_free heap_ex = 3" by (simp add: heap_ex_def)
  from a b c d e f g show ?thesis by simp
qed

lemma nassertr_fields [simp]:
  "empty_list (nassertr c h) = empty_list h"
  "objects (nassertr c h) = objects h"
  "next_free (nassertr c h) = next_free h"
  by (simp_all add: nassertr_def)

lemma culled_all:
  assumes "0 < popcount m" and "enat n \<le> popcount m" and "mask_ok m" and "n < 2 ^ 64"
  shows "0 < size_t_of_int (get_num_on_bits m) \<and> n \<le> size_t_of_int (get_num_on_bits m)"
proof (cases "highest_bits m")
  case True
  then have "size_t_of_int (get_num_on_bits m) = 2 ^ 64 - 1" by (rule num_culled_infinite)
  with assms(4) show ?thesis by simp
next
  case False
  from assms(3) have "length (array m) < 2 ^ 64" by (rule mask_ok_bound)
  with False have "size_t_of_int (get_num_on_bits m) = length (filter (\<lambda>b. b) (array m))"
    by (rule num_culled_finite)
  with False assms(1,2) show ?thesis by (simp add: popcount_def zero_enat_def)
qed

lemma without_all_result:
  assumes "0 < popcount m" and "enat (size_IL (objects h this)) \<le> popcount m"
    and "mask_ok m" and "size_IL (objects h this) < 2 ^ 64"
  shows "fst (without h this m) = (case empty_list h of None \<Rightarrow> next_free h | Some e \<Rightarrow> e)"
    and "empty_list (snd (without h this m)) = Some (fst (without h this m))"
    and "objects (snd (without h this m)) =
           (case empty_list h of None \<Rightarrow> (objects h)(next_free h := \<lparr>instances = []\<rparr>)
            | Some e \<Rightarrow> objects h)"
    and "next_free (snd (without h this m)) =
           (case empty_list h of None \<Rightarrow> Suc (next_free h) | Some e \<Rightarrow> next_free h)"
proof -
  from culled_all[OF assms]
  have "0 < size_t_of_int (get_num_on_bits m)"
    and "length (instances (objects h this)) \<le> size_t_of_int (get_num_on_bits m)"
    by (simp_all add: size_IL_def)
  note eq = without_all_eq[OF this]
  show "fst (without h this m) = (case empty_list h of None \<Rightarrow> next_free h | Some e \<Rightarrow> e)"
    unfolding eq by (simp split: option.splits)
  show "empty_list (snd (without h this m)) = Some (fst (without h this m))"
    unfolding eq by (simp split: option.splits)
  show "objects (snd (without h this m)) =
           (case empty_list h of None \<Rightarrow> (objects h)(next_free h := \<lparr>instances = []\<rparr>)
            | Some e \<Rightarrow> objects h)"
    unfolding eq by (simp split: option.splits)
  show "next_free (snd (without h this m)) =
           (case empty_list h of None \<Rightarrow> Suc (next_free h) | Some e \<Rightarrow> next_free h)"
    unfolding eq by (simp split: option.splits)
qed

text \<open>Every call of \<open>without\<close> keeps the static in order.\<close>

lemma without_preserves_static_ok:
  assumes "static_ok h"
  shows "static_ok (snd (without h this m))"
proof -
  let ?c = "size_t_of_int (get_num_on_bits m)"
  let ?n = "size_IL (objects h this)"
  consider (none) "?c = 0" | (all) "?c \<noteq> 0" "?n \<le> ?c" | (some) "?c \<noteq> 0" "\<not> ?n \<le> ?c"
    by blast
  then show ?thesis
  proof cases
    case none
    then show ?thesis using assms by (simp add: without_def)
  next
    case all
    then show ?thesis using assms
      by (simp add: without_def static_ok_def new_InstanceList_def nassertr_def
          split: option.splits)
  next
    case some
    then show ?thesis using assms
      by (auto simp: without_def static_ok_def new_InstanceList_def Let_def
          split: option.splits)
  qed
qed

text \<open>
  The case of a mask that covers the whole list and has an on bit: the call
  returns the pointer held by the static, and so does every later call of this
  kind.
\<close>

lemma without_covering_mask:
  fixes h :: "'t heap"
  assumes "0 < popcount m" and "enat (size_IL (objects h this)) \<le> popcount m"
    and "mask_ok m" and "size_IL (objects h this) < 2 ^ 64" and "static_ok h"
  shows "empty_list (snd (without h this m)) = Some (fst (without h this m))
    \<and> instances (objects (snd (without h this m)) (fst (without h this m))) = []
    \<and> static_ok (snd (without h this m))
    \<and> (\<forall>(h2 :: 't heap) this2 m2.
          empty_list h2 = empty_list (snd (without h this m))
          \<and> 0 < popcount m2 \<and> enat (size_IL (objects h2 this2)) \<le> popcount m2
          \<and> mask_ok m2 \<and> size_IL (objects h2 this2) < 2 ^ 64
          \<longrightarrow> fst (without h2 this2 m2) = fst (without h this m))"
proof -
  note r = without_all_result[OF assms(1-4)]
  have a: "empty_list (snd (without h this m)) = Some (fst (without h this m))" by (rule r(2))
  have b: "instances (objects (snd (without h this m)) (fst (without h this m))) = []"
    using assms(5) unfolding r(1) r(3) by (simp add: static_ok_def split: option.splits)
  have c: "static_ok (snd (without h this m))"
    using assms(5) unfolding static_ok_def r(2) using r(1,3,4)
    by (simp split: option.splits)
  have d: "fst (without h2 this2 m2) = fst (without h this m)"
    if "empty_list h2 = empty_list (snd (without h this m))"
      and "0 < popcount m2" and "enat (size_IL (objects h2 this2)) \<le> popcount m2"
      and "mask_ok m2" and "size_IL (objects h2 this2) < 2 ^ 64" for h2 :: "'t heap" and this2 m2
    using without_all_result(1)[OF that(2-5)] that(1) a by simp
  from a b c d show ?thesis by blast
qed

text \<open>The case of a mask with no on bit: the first test of \<open>without\<close> returns the receiver.\<close>

lemma without_empty_mask:
  assumes "popcount m = 0"
  shows "without h this m = (this, h)"
proof -
  from assms have "\<not> highest_bits m" and "length (filter (\<lambda>b. b) (array m)) = 0"
    by (simp_all add: popcount_def zero_enat_def split: if_splits)
  then have "size_t_of_int (get_num_on_bits m) = 0"
    by (simp add: get_num_on_bits_def size_t_of_int_def)
  then show ?thesis by (rule without_zero)
qed

text \<open>
  Claim C5, amended: for every list \<open>L\<close> and every mask \<open>M\<close> with
  \<open>popcount(M) \<ge> size(L)\<close> and \<open>popcount(M) > 0\<close>, \<open>without(M)\<close> returns the
  pointer held by the static \<open>empty_list\<close>, an empty list; every later call of this
  kind, on any list and mask, in a state where the static is as this call left
  it, returns the same pointer. When \<open>popcount(M) = 0\<close>, also when \<open>size(L) = 0\<close>,
  \<open>without(M)\<close> returns the receiver itself and leaves the state, and with it the
  static, as it was.
\<close>

theorem without_canonical_empty:
  fixes h :: "'t heap"
  shows "(0 < popcount m \<and> enat (size_IL (objects h this)) \<le> popcount m
          \<and> mask_ok m \<and> size_IL (objects h this) < 2 ^ 64 \<and> static_ok h
          \<longrightarrow>
            empty_list (snd (without h this m)) = Some (fst (without h this m))
            \<and> instances (objects (snd (without h this m)) (fst (without h this m))) = []
            \<and> static_ok (snd (without h this m))
            \<and> (\<forall>(h2 :: 't heap) this2 m2.
                  empty_list h2 = empty_list (snd (without h this m))
                  \<and> 0 < popcount m2 \<and> enat (size_IL (objects h2 this2)) \<le> popcount m2
                  \<and> mask_ok m2 \<and> size_IL (objects h2 this2) < 2 ^ 64
                  \<longrightarrow> fst (without h2 this2 m2) = fst (without h this m)))
    \<and> (popcount m = 0 \<longrightarrow> without h this m = (this, h))"
  using without_covering_mask [of m h this] without_empty_mask [of m h this]
  by blast

text \<open>
  Claim C4, amended: for every list \<open>L\<close> of size \<open>N\<close> and every mask \<open>M\<close> with
  \<open>popcount(M) < N\<close>, the on bits of \<open>M\<close> at indices \<open>N\<close> and above do not change
  which instances are kept: the list returned by \<open>without(M)\<close> holds the same
  instances, in the same order, as the list returned for \<open>M\<close> with the bits from
  \<open>N\<close> on cleared, and no assertion fails in either call.
\<close>

theorem without_ignores_high_bits:
  assumes "popcount m < enat (size_IL (objects h this))"
    and "mask_ok m" and "size_IL (objects h this) < 2 ^ 64"
  shows "instances (objects (snd (without h this m)) (fst (without h this m)))
         = instances (objects (snd (without h this (clear_from (size_IL (objects h this)) m)))
                        (fst (without h this (clear_from (size_IL (objects h this)) m))))
    \<and> assert_failed (snd (without h this m)) = assert_failed h
    \<and> assert_failed (snd (without h this (clear_from (size_IL (objects h this)) m))) = assert_failed h"
proof -
  let ?xs = "instances (objects h this)"
  let ?m' = "clear_from (length ?xs) m"
  from popcount_finite[OF assms(1)]
  have fin: "\<not> highest_bits m" and lt: "length (filter (\<lambda>b. b) (array m)) < length ?xs"
    by (simp_all add: size_IL_def)
  have len: "length (array m) < 2 ^ 64" using assms(2) by (rule mask_ok_bound)
  note one = without_below_size[OF fin len lt]
  have fin': "\<not> highest_bits ?m'" by (simp add: clear_from_def)
  have len': "length (array ?m') < 2 ^ 64" using assms(3) by (simp add: clear_from_def size_IL_def)
  have "length (filter (\<lambda>b. b) (array ?m')) \<le> length (filter (\<lambda>b. b) (array m))"
    unfolding count_clear_from using fin by (rule inrange_count_le)
  from this lt have lt': "length (filter (\<lambda>b. b) (array ?m')) < length ?xs"
    by (rule order.strict_trans1)
  note two = without_below_size[OF fin' len' lt']
  show ?thesis
    using one two by (simp add: size_IL_def survivors_clear_from)
qed

lemma ex_num_culled:
  "size_t_of_int (get_num_on_bits (mask_of [True, True])) = 2"
  "size_t_of_int (get_num_on_bits (mask_of [False, False, False, False, False, True, True, True])) = 3"
  "size_t_of_int (get_num_on_bits (mask_of [])) = 0"
  by (simp_all add: mask_of_def get_num_on_bits_def size_t_of_int_def)

lemma ex_all:
  "without heap_ex 1 (mask_of [True, True])
   = (3, heap_ex\<lparr>objects := (objects heap_ex)(3 := \<lparr>instances = []\<rparr>),
                  next_free := 4, empty_list := Some 3\<rparr>)"
  using without_all_eq [of "mask_of [True, True]" heap_ex 1]
  by (simp add: ex_num_culled heap_ex_def nassertr_def)

text \<open>
  The theorem at the list of two instances and the mask with bits 0 and 1 on; the
  second call is on the list of three instances with a mask whose bits are all on.
  For a mask with no on bit: the empty list with the empty mask, and the list of
  three instances with two off bits, each returned as it is.
\<close>

theorem without_canonical_empty_witness:
  "0 < popcount (mask_of [True, True])
   \<and> enat (size_IL (objects heap_ex 1)) \<le> popcount (mask_of [True, True])
   \<and> mask_ok (mask_of [True, True])
   \<and> size_IL (objects heap_ex 1) < 2 ^ 64
   \<and> static_ok heap_ex
   \<and> empty_list (snd (without heap_ex 1 (mask_of [True, True])))
       = Some (fst (without heap_ex 1 (mask_of [True, True])))
   \<and> instances (objects (snd (without heap_ex 1 (mask_of [True, True])))
        (fst (without heap_ex 1 (mask_of [True, True])))) = []
   \<and> fst (without (snd (without heap_ex 1 (mask_of [True, True]))) 0
             \<lparr>array = [], highest_bits = True\<rparr>)
       = fst (without heap_ex 1 (mask_of [True, True]))
   \<and> popcount (mask_of []) = 0
   \<and> size_IL (objects heap_ex 2) = 0
   \<and> without heap_ex 2 (mask_of []) = (2, heap_ex)
   \<and> popcount (mask_of [False, False]) = 0
   \<and> size_IL (objects heap_ex 0) = 3
   \<and> without heap_ex 0 (mask_of [False, False]) = (0, heap_ex)"
proof -
  let ?m = "mask_of [True, True]"
  let ?inf = "\<lparr>array = [], highest_bits = True\<rparr>"
  let ?h2 = "snd (without heap_ex 1 ?m)"
  have a: "0 < popcount ?m" by (simp add: popcount_def mask_of_def zero_enat_def)
  have b: "enat (size_IL (objects heap_ex 1)) \<le> popcount ?m"
    by (simp add: popcount_def mask_of_def heap_ex_def size_IL_def)
  have c: "mask_ok ?m" by (simp add: mask_ok_def mask_of_def)
  have d: "size_IL (objects heap_ex 1) < 2 ^ 64" by (simp add: heap_ex_def size_IL_def)
  have e: "static_ok heap_ex" by (simp add: static_ok_def heap_ex_def)
  from without_canonical_empty [of ?m heap_ex 1] a b c d e
  have w: "empty_list ?h2 = Some (fst (without heap_ex 1 ?m))
    \<and> instances (objects ?h2 (fst (without heap_ex 1 ?m))) = []
    \<and> static_ok ?h2
    \<and> (\<forall>(h2 :: nat heap) this2 m2.
          empty_list h2 = empty_list ?h2
          \<and> 0 < popcount m2 \<and> enat (size_IL (objects h2 this2)) \<le> popcount m2
          \<and> mask_ok m2 \<and> size_IL (objects h2 this2) < 2 ^ 64
          \<longrightarrow> fst (without h2 this2 m2) = fst (without heap_ex 1 ?m))"
    by blast
  from w have f: "empty_list ?h2 = Some (fst (without heap_ex 1 ?m))" by (rule conjunct1)
  from w have g: "instances (objects ?h2 (fst (without heap_ex 1 ?m))) = []" by blast
  have a2: "0 < popcount ?inf" by (simp add: popcount_def)
  have b2: "enat (size_IL (objects ?h2 0)) \<le> popcount ?inf" by (simp add: popcount_def)
  have c2: "mask_ok ?inf" by (simp add: mask_ok_def)
  have d2: "size_IL (objects ?h2 0) < 2 ^ 64"
    unfolding ex_all by (simp add: heap_ex_def size_IL_def)
  from w a2 b2 c2 d2 have i: "fst (without ?h2 0 ?inf) = fst (without heap_ex 1 ?m)" by blast
  have z1: "popcount (mask_of []) = 0" by (simp add: popcount_def mask_of_def zero_enat_def)
  have z2: "size_IL (objects heap_ex 2) = 0" by (simp add: heap_ex_def size_IL_def)
  from without_canonical_empty [of "mask_of []" heap_ex 2] z1
  have z3: "without heap_ex 2 (mask_of []) = (2, heap_ex)" by blast
  have y1: "popcount (mask_of [False, False]) = 0"
    by (simp add: popcount_def mask_of_def zero_enat_def)
  have y2: "size_IL (objects heap_ex 0) = 3" by (simp add: heap_ex_def size_IL_def)
  from without_canonical_empty [of "mask_of [False, False]" heap_ex 0] y1
  have y3: "without heap_ex 0 (mask_of [False, False]) = (0, heap_ex)" by blast
  from a b c d e f g i z1 z2 z3 y1 y2 y3 show ?thesis by blast
qed

lemma ex_high:
  "without heap_ex 1 (mask_of [False, False, False, False, False, True, True, True])
   = (3, heap_ex\<lparr>objects := (objects heap_ex)(3 := \<lparr>instances = []\<rparr>),
                  next_free := 4, empty_list := Some 3, assert_failed := True\<rparr>)"
  using without_all_eq [of "mask_of [False, False, False, False, False, True, True, True]" heap_ex 1]
  by (simp add: ex_num_culled heap_ex_def nassertr_def)

lemma ex_high_cleared:
  "without heap_ex 1 (clear_from 2 (mask_of [False, False, False, False, False, True, True, True]))
   = (1, heap_ex)"
proof -
  have "[0..<2] = [0, Suc 0]" by (simp add: upt_rec numeral_2_eq_2)
  then have "clear_from 2 (mask_of [False, False, False, False, False, True, True, True])
        = mask_of [False, False]"
    by (simp add: clear_from_def mask_of_def get_bit_def)
  moreover have "size_t_of_int (get_num_on_bits (mask_of [False, False])) = 0"
    by (simp add: mask_of_def get_num_on_bits_def size_t_of_int_def)
  ultimately show ?thesis by (simp add: without_zero)
qed

text \<open>
  Claim C4 as stated fails where the on bits out of range make the count of on
  bits reach the size of the list. On the list of two instances, the mask with
  bits 5, 6 and 7 on gives the empty list, and the assertion
  \<open>num_culled <= num_instances\<close> fails; the same mask with the bits from index 2
  on cleared gives the list itself, with both instances.
\<close>

theorem without_high_bits_counterexample:
  "size_IL (objects heap_ex 1) = 2
   \<and> instances (objects
        (snd (without heap_ex 1 (mask_of [False, False, False, False, False, True, True, True])))
        (fst (without heap_ex 1 (mask_of [False, False, False, False, False, True, True, True]))))
      = []
   \<and> assert_failed
        (snd (without heap_ex 1 (mask_of [False, False, False, False, False, True, True, True])))
   \<and> instances (objects
        (snd (without heap_ex 1
               (clear_from 2 (mask_of [False, False, False, False, False, True, True, True]))))
        (fst (without heap_ex 1
               (clear_from 2 (mask_of [False, False, False, False, False, True, True, True])))))
      = [Instance 10, Instance 20]"
  unfolding ex_high ex_high_cleared
  by (simp add: heap_ex_def size_IL_def)

text \<open>The theorem at the list of three instances and the mask with bits 0 and 7 on.\<close>

theorem without_ignores_high_bits_witness:
  "popcount (mask_of [True, False, False, False, False, False, False, True])
     < enat (size_IL (objects heap_ex 0))
   \<and> mask_ok (mask_of [True, False, False, False, False, False, False, True])
   \<and> size_IL (objects heap_ex 0) < 2 ^ 64
   \<and> instances (objects
        (snd (without heap_ex 0 (mask_of [True, False, False, False, False, False, False, True])))
        (fst (without heap_ex 0 (mask_of [True, False, False, False, False, False, False, True]))))
      = instances (objects
        (snd (without heap_ex 0 (clear_from (size_IL (objects heap_ex 0))
               (mask_of [True, False, False, False, False, False, False, True]))))
        (fst (without heap_ex 0 (clear_from (size_IL (objects heap_ex 0))
               (mask_of [True, False, False, False, False, False, False, True])))))
   \<and> \<not> assert_failed
        (snd (without heap_ex 0 (mask_of [True, False, False, False, False, False, False, True])))"
proof -
  let ?m = "mask_of [True, False, False, False, False, False, False, True]"
  have a: "popcount ?m < enat (size_IL (objects heap_ex 0))"
    by (simp add: popcount_def mask_of_def heap_ex_def size_IL_def)
  have b: "mask_ok ?m" by (simp add: mask_ok_def mask_of_def)
  have c: "size_IL (objects heap_ex 0) < 2 ^ 64" by (simp add: heap_ex_def size_IL_def)
  have d: "\<not> assert_failed heap_ex" by (simp add: heap_ex_def)
  from without_ignores_high_bits [OF a b c] a b c d show ?thesis by simp
qed

subsection \<open>Transforming all instances\<close>

lemma xform_unchanged: "xform mat this = this"
  by (simp add: xform_def)

text \<open>
  Claim C1 says that \<open>xform\<close> replaces each transform by the matrix composed
  with the old transform. The body of \<open>InstanceList::xform\<close> is empty, although
  its comment reads "Transforms all of the instances in the list by the indicated
  matrix": on a list of one instance with the scale 3 and the matrix of the scale
  2, the code leaves the 3 where the claim asks for 6 (with the composition of
  two scales as the product).
\<close>

theorem xform_failing_input:
  "xform (2::int) \<lparr>instances = [Instance (3::int)]\<rparr> = \<lparr>instances = [Instance 3]\<rparr>
   \<and> transform_all_spec (*) (2::int) \<lparr>instances = [Instance (3::int)]\<rparr>
       = \<lparr>instances = [Instance 6]\<rparr>"
  by (simp add: xform_def transform_all_spec_def)

subsection \<open>The Bam stream\<close>

lemma write_datagram_loop_eq:
  "write_datagram_loop xs dg = dg @ map (\<lambda>instance. PointerToken (get_transform instance)) xs"
  by (induction xs arbitrary: dg) (simp_all add: write_pointer_def)

lemma write_datagram_eq:
  "write_datagram this dg
     = dg @ map (\<lambda>instance. PointerToken (get_transform instance)) (instances this)"
  by (simp add: write_datagram_def CopyOnWriteObject_write_datagram_def write_datagram_loop_eq)

text \<open>
  Claim C2 says that \<open>write_datagram\<close> emits a 16-bit count and then one pointer
  token per instance. The code emits the pointer tokens only, while \<open>fillin\<close>
  starts by reading the count: for a list of one instance the datagram is the one
  pointer token, where the layout is the count 1 and then the token.
\<close>

theorem write_datagram_failing_input:
  "write_datagram \<lparr>instances = [Instance (7::nat)]\<rparr> [] = [PointerToken 7]
   \<and> layout_spec \<lparr>instances = [Instance (7::nat)]\<rparr> = [UInt16 1, PointerToken 7]"
  by (simp add: write_datagram_eq layout_spec_def size_IL_def)

text \<open>
  The reading half follows the layout of the spec: \<open>fillin\<close> consumes exactly the
  fields of the layout and requests the transforms in order, and
  \<open>complete_pointers\<close> binds the resolved pointers to the instances in the same
  order.
\<close>

lemma fillin_loop_reads:
  "i + length ts = n \<Longrightarrow>
   fillin_loop i n (map PointerToken ts @ rest) manager
     = Inr (rest, manager\<lparr>requested := requested manager @ ts\<rparr>)"
proof (induction ts arbitrary: i manager)
  case Nil
  then show ?case by (subst fillin_loop.simps) simp
next
  case (Cons t ts)
  then have "i < n" and "Suc i + length ts = n" by simp_all
  with Cons.IH[of "Suc i"] show ?case
    by (subst fillin_loop.simps) (simp add: read_pointer_def)
qed

lemma fillin_reads_layout:
  "fillin make_identity this (layout_spec l @ rest) manager
     = Inr (this\<lparr>instances := replicate (size_IL l) (Instance make_identity)\<rparr>, rest,
            manager\<lparr>requested := requested manager @ map get_transform (instances l)\<rparr>)"
proof -
  have "fillin_loop 0 (size_IL l)
          (map PointerToken (map get_transform (instances l)) @ rest) manager
        = Inr (rest, manager\<lparr>requested := requested manager @ map get_transform (instances l)\<rparr>)"
    by (rule fillin_loop_reads) (simp add: size_IL_def)
  then show ?thesis
    by (simp add: fillin_def layout_spec_def get_uint16_def CopyOnWriteObject_fillin_def comp_def)
qed

lemma complete_pointers_loop_binds:
  "p_i + length xs \<le> length p_list \<Longrightarrow>
   complete_pointers_loop dcast p_list xs p_i
     = Inr (map (\<lambda>w. Instance (dcast w)) (take (length xs) (drop p_i p_list)), p_i + length xs)"
proof (induction xs arbitrary: p_i)
  case Nil
  show ?case by simp
next
  case (Cons x xs)
  then have lt: "p_i < length p_list" and "Suc p_i + length xs \<le> length p_list" by simp_all
  from Cons.IH[OF this(2)] lt show ?case
    by (simp add: Cons_nth_drop_Suc[symmetric])
qed

lemma complete_pointers_binds:
  "length (instances this) = length p_list \<Longrightarrow>
   complete_pointers dcast this p_list
     = Inr (this\<lparr>instances := map (\<lambda>w. Instance (dcast w)) p_list\<rparr>, length p_list)"
  using complete_pointers_loop_binds[of 0 "instances this" p_list dcast]
  by (simp add: complete_pointers_def CopyOnWriteObject_complete_pointers_def)

lemma layout_spec_roundtrip:
  "fillin make_identity \<lparr>instances = []\<rparr> (layout_spec l) \<lparr>requested = []\<rparr>
     = Inr (l1, scan, manager)
   \<Longrightarrow> complete_pointers (\<lambda>w. w) l1 (requested manager) = Inr (l, size_IL l)"
proof -
  assume a: "fillin make_identity \<lparr>instances = []\<rparr> (layout_spec l) \<lparr>requested = []\<rparr>
     = Inr (l1, scan, manager)"
  from fillin_reads_layout[of make_identity "\<lparr>instances = []\<rparr>" l "[]" "\<lparr>requested = []\<rparr>"] a
  have l1: "l1 = \<lparr>instances = replicate (size_IL l) (Instance make_identity)\<rparr>"
    and m: "manager = \<lparr>requested = map get_transform (instances l)\<rparr>"
    by simp_all
  have "length (instances l1) = length (requested manager)" by (simp add: l1 m size_IL_def)
  from complete_pointers_binds[OF this, of "\<lambda>w. w"] show ?thesis
    by (simp add: l1 m size_IL_def comp_def)
qed

text \<open>
  Claim C3 says that writing a list with \<open>write_datagram\<close> and reading it back
  with \<open>fillin\<close> and \<open>complete_pointers\<close> gives a list of the same size with the
  same transform objects. For a list of one instance the datagram written starts
  with a pointer token, so the count that \<open>fillin\<close> reads first is not there and
  no list is read back.
\<close>

theorem roundtrip_failing_input:
  "fillin (0::nat) \<lparr>instances = []\<rparr> (write_datagram \<lparr>instances = [Instance 7]\<rparr> [])
     \<lparr>requested = []\<rparr> = Inl Misparse"
  by (simp add: write_datagram_eq fillin_def get_uint16_def CopyOnWriteObject_fillin_def)

section \<open>Properties of the instanced node\<close>

subsection \<open>Combining two nodes\<close>

text \<open>
  Claim C7: \<open>combine_with\<close> returns the receiver exactly when both nodes are of
  the exact type InstancedNode and the instance lists they currently point to are
  the same object; in every other case it returns the null pointer, also when the
  two lists are distinct objects with equal contents.
\<close>

theorem combine_with_reference_identity:
  fixes nodes :: "nat \<Rightarrow> 't PandaNode"
  shows "combine_with nodes current_thread this other =
     (if node_type (nodes this) = InstancedNode_handle
         \<and> node_type (nodes other) = InstancedNode_handle
         \<and> get_instances (nodes this) current_thread = get_instances (nodes other) current_thread
      then Some this else None)
   \<and> (\<forall>h :: 't heap.
         objects h (get_instances (nodes this) current_thread)
           = objects h (get_instances (nodes other) current_thread)
         \<and> get_instances (nodes this) current_thread \<noteq> get_instances (nodes other) current_thread
         \<longrightarrow> combine_with nodes current_thread this other = None)"
  by (simp add: combine_with_def is_exact_type_def get_class_type_def get_instances_def Let_def)

text \<open>
  The theorem at the example nodes: the nodes 0 and 1 share a list and combine;
  the nodes 0 and 2 have equal lists at two addresses and do not; the node 3 is
  of another type.
\<close>

theorem combine_with_reference_identity_witness:
  "combine_with nodes_ex 0 0 1 = Some 0
   \<and> objects heap_twins (get_instances (nodes_ex 0) 0) = objects heap_twins (get_instances (nodes_ex 2) 0)
   \<and> get_instances (nodes_ex 0) 0 \<noteq> get_instances (nodes_ex 2) 0
   \<and> combine_with nodes_ex 0 0 2 = None
   \<and> combine_with nodes_ex 0 0 3 = None"
proof -
  have a: "objects heap_twins (get_instances (nodes_ex 0) 0)
             = objects heap_twins (get_instances (nodes_ex 2) 0)"
    by (simp add: heap_twins_def)
  have b: "get_instances (nodes_ex 0) 0 \<noteq> get_instances (nodes_ex 2) 0"
    by (simp add: get_instances_def get_read_pointer_def nodes_ex_def)
  from combine_with_reference_identity [of nodes_ex 0 0 2] a b
  have c: "combine_with nodes_ex 0 0 2 = None" by blast
  have d: "combine_with nodes_ex 0 0 1 = Some 0"
    using combine_with_reference_identity [of nodes_ex 0 0 1]
    by (simp add: get_instances_def get_read_pointer_def nodes_ex_def)
  have e: "combine_with nodes_ex 0 0 3 = None"
    using combine_with_reference_identity [of nodes_ex 0 0 3]
    by (simp add: nodes_ex_def)
  from a b c d e show ?thesis by blast
qed

subsection \<open>The cull callback\<close>

lemma cull_callback_loop_calls:
  "below_calls (cull_callback_loop ap ef xs data trav)
     = below_calls trav @ map (\<lambda>instance. ap data (get_transform instance)) xs"
  by (induction xs arbitrary: trav) (simp_all add: traverse_below_def Let_def)

lemma cull_callback_loop_state:
  "trav_state (cull_callback_loop ap ef xs data trav)
     = fold (\<lambda>instance. ef (ap data (get_transform instance))) xs (trav_state trav)"
  by (induction xs arbitrary: trav) (simp_all add: traverse_below_def Let_def)

text \<open>
  Claim C8: \<open>cull_callback\<close> calls \<open>traverse_below\<close> once per instance of the
  current list, in the order of the list, each time on a copy of the traversal
  data (as the callback holds it, with the view frustum and the cull planes
  reset) into which the transform of the instance is composed; for an empty list
  it makes no call; and it returns false.
\<close>

theorem cull_callback_fans_out:
  "fst (cull_callback ap make_empty ef h this trav data) = False
   \<and> fst (snd (cull_callback ap make_empty ef h this trav data))
       = data\<lparr>view_frustum := None, cull_planes := make_empty\<rparr>
   \<and> below_calls (snd (snd (cull_callback ap make_empty ef h this trav data)))
       = below_calls trav
         @ map (\<lambda>instance. ap (data\<lparr>view_frustum := None, cull_planes := make_empty\<rparr>)
                              (get_transform instance))
             (instances (objects h (get_instances this (get_current_thread trav))))
   \<and> length (below_calls (snd (snd (cull_callback ap make_empty ef h this trav data))))
       = length (below_calls trav)
         + size_IL (objects h (get_instances this (get_current_thread trav)))
   \<and> trav_state (snd (snd (cull_callback ap make_empty ef h this trav data)))
       = fold (\<lambda>instance. ef (ap (data\<lparr>view_frustum := None, cull_planes := make_empty\<rparr>)
                                  (get_transform instance)))
           (instances (objects h (get_instances this (get_current_thread trav))))
           (trav_state trav)"
  by (simp add: cull_callback_def Let_def cull_callback_loop_calls cull_callback_loop_state
      size_IL_def)

subsection \<open>Tight bounds\<close>

lemma calc_tight_bounds_children_calls:
  "child_calls (calc_tight_bounds_children ef cr ci (length cr) t acc)
     = child_calls acc @ map (\<lambda>child. (child, t)) (drop ci cr)"
proof (induction ef cr ci "length cr" t acc rule: calc_tight_bounds_children.induct)
  case (1 ef cr ci t acc)
  show ?case
  proof (cases "ci < length cr")
    case True
    with "1" show ?thesis
      by (subst calc_tight_bounds_children.simps)
        (simp add: child_calc_tight_bounds_def Cons_nth_drop_Suc[symmetric])
  next
    case False
    then show ?thesis by (subst calc_tight_bounds_children.simps) simp
  qed
qed

lemma calc_tight_bounds_instances_calls:
  "child_calls (calc_tight_bounds_instances compose ef this xs ii next_transform acc)
     = child_calls acc
       @ concat (map (\<lambda>instance. map (\<lambda>child. (child, compose next_transform (get_transform instance)))
                                    (children this))
                  (drop ii xs))"
proof (induction compose ef this xs ii next_transform acc rule: calc_tight_bounds_instances.induct)
  case (1 compose ef this xs ii next_transform acc)
  show ?case
  proof (cases "ii < length xs")
    case True
    with "1" show ?thesis
      by (subst calc_tight_bounds_instances.simps)
        (simp add: Let_def calc_tight_bounds_children_calls Cons_nth_drop_Suc[symmetric])
  next
    case False
    then show ?thesis by (subst calc_tight_bounds_instances.simps) simp
  qed
qed

lemma calc_tight_bounds_children_points:
  "points (calc_tight_bounds_children ef cr ci (length cr) t acc)
     = fold (\<lambda>child. ef child t) (drop ci cr) (points acc)"
proof (induction ef cr ci "length cr" t acc rule: calc_tight_bounds_children.induct)
  case (1 ef cr ci t acc)
  show ?case
  proof (cases "ci < length cr")
    case True
    with "1" show ?thesis
      by (subst calc_tight_bounds_children.simps)
        (simp add: child_calc_tight_bounds_def Cons_nth_drop_Suc[symmetric])
  next
    case False
    then show ?thesis by (subst calc_tight_bounds_children.simps) simp
  qed
qed

lemma calc_tight_bounds_instances_points:
  "points (calc_tight_bounds_instances compose ef this xs ii next_transform acc)
     = fold (\<lambda>instance. fold (\<lambda>child. ef child (compose next_transform (get_transform instance)))
                              (children this))
         (drop ii xs) (points acc)"
proof (induction compose ef this xs ii next_transform acc rule: calc_tight_bounds_instances.induct)
  case (1 compose ef this xs ii next_transform acc)
  show ?case
  proof (cases "ii < length xs")
    case True
    with "1" show ?thesis
      by (subst calc_tight_bounds_instances.simps)
        (simp add: Let_def calc_tight_bounds_children_points Cons_nth_drop_Suc[symmetric])
  next
    case False
    then show ?thesis by (subst calc_tight_bounds_instances.simps) simp
  qed
qed

text \<open>
  Claim C9 as stated has \<open>calc_tight_bounds\<close> return the own transform of the
  node. The code returns \<open>next_transform\<close>, the incoming transform composed with
  the own transform: with the composition of two offsets as their sum, the
  incoming offset 5 and the own offset 2 give 7, not 2.
\<close>

theorem calc_tight_bounds_return_counterexample:
  "fst (calc_tight_bounds (+) (\<lambda>child transform b. b) heap_twins (nodes_ex 0)
          \<lparr>points = (), child_calls = []\<rparr> 5 0) = 7
   \<and> node_transform (nodes_ex 0) = 2"
  by (simp add: calc_tight_bounds_def Let_def nodes_ex_def)

text \<open>
  Claim C9, amended: \<open>calc_tight_bounds\<close> calls \<open>calc_tight_bounds\<close> of each child
  once per instance, instance by instance and child by child, with the incoming
  transform composed with the own transform of the node and then with the
  transform of the instance, so that the bounds are accumulated over all
  instances and all children; and it returns the incoming transform composed
  with the own transform of the node, without any transform of an instance.
\<close>

theorem calc_tight_bounds_per_instance:
  "fst (calc_tight_bounds compose ef h this acc transform current_thread)
     = compose transform (node_transform this)
   \<and> child_calls (snd (calc_tight_bounds compose ef h this acc transform current_thread))
     = child_calls acc
       @ concat (map (\<lambda>instance.
                        map (\<lambda>child. (child, compose (compose transform (node_transform this))
                                                     (get_transform instance)))
                          (children this))
                  (instances (objects h (get_instances this current_thread))))
   \<and> points (snd (calc_tight_bounds compose ef h this acc transform current_thread))
     = fold (\<lambda>instance.
               fold (\<lambda>child. ef child (compose (compose transform (node_transform this))
                                                (get_transform instance)))
                 (children this))
         (instances (objects h (get_instances this current_thread))) (points acc)"
  by (simp add: calc_tight_bounds_def Let_def calc_tight_bounds_instances_calls
      calc_tight_bounds_instances_points)

subsection \<open>Internal bounds\<close>

text \<open>
  Claim C10: whatever the node and its instance list, \<open>compute_internal_bounds\<close>
  sets \<open>internal_bounds\<close> to a newly allocated OmniBoundingVolume, which contains
  every point, and leaves \<open>internal_vertices\<close> as it was.
\<close>

theorem compute_internal_bounds_omni:
  "fst (compute_internal_bounds bh this internal_bounds internal_vertices pipeline_stage current_thread)
     = Some (bv_next bh)
   \<and> volumes (snd (snd (compute_internal_bounds bh this internal_bounds internal_vertices
                          pipeline_stage current_thread))) (bv_next bh) = OmniBoundingVolume
   \<and> (\<forall>p. contains_point
             (volumes (snd (snd (compute_internal_bounds bh this internal_bounds internal_vertices
                                   pipeline_stage current_thread))) (bv_next bh)) p)
   \<and> bv_next (snd (snd (compute_internal_bounds bh this internal_bounds internal_vertices
                           pipeline_stage current_thread))) = Suc (bv_next bh)
   \<and> fst (snd (compute_internal_bounds bh this internal_bounds internal_vertices
                  pipeline_stage current_thread)) = internal_vertices"
  by (simp add: compute_internal_bounds_def)

end
